theory Spec2Isabelle
  imports Complex_Main
begin

section \<open>Data model of \<open>src/App.tsx\<close>\<close>

text \<open>
  The TypeScript type \<open>number\<close> is embedded as \<^typ>\<open>real\<close>: every arithmetic
  expression of the source is read in exact real arithmetic, so rounding, infinities and
  NaN of IEEE doubles are outside this development. Strings are \<^typ>\<open>string\<close>.
  The fields of the three interfaces carry the interface's initial as a prefix
  (\<open>Point.x\<close> is \<open>p_x\<close>, \<open>Item.id\<close> is \<open>i_id\<close>, \<open>Cell.path\<close> is \<open>c_path\<close>),
  since a record field is a global constant.
\<close>

record Item =
  i_id :: string
  i_title :: string
  i_category :: string
  i_image :: string
  i_tags :: "string list"

record Point =
  p_x :: real
  p_y :: real
  p_vx :: real
  p_vy :: real
  p_r :: real
  p_targetR :: real
  p_id :: string

text \<open>
  \<open>Cell.path\<close> is what \<open>voronoi.renderCell(i)\<close> returned: the SVG path, or nothing
  when the diagram has no polygon for the point. \<open>Cell.item\<close> is what
  \<open>MOCK_ITEMS.find\<close> returned, which is \<open>undefined\<close> when no item has the point's id.
\<close>

record Cell =
  c_path :: "string option"
  c_item :: "Item option"
  c_relevance :: real
  c_center :: "real \<times> real"

datatype error = TypeError

subsection \<open>Constants\<close>

definition CANVAS_WIDTH :: real where "CANVAS_WIDTH = 1200"
definition CANVAS_HEIGHT :: real where "CANVAS_HEIGHT = 800"
definition BASE_RADIUS :: real where "BASE_RADIUS = 60"
definition MAX_RADIUS :: real where "MAX_RADIUS = 180"
definition FRICTION :: real where "FRICTION = 0.9"
definition STIFFNESS :: real where "STIFFNESS = 0.05"

lemmas consts_defs =
  CANVAS_WIDTH_def CANVAS_HEIGHT_def BASE_RADIUS_def MAX_RADIUS_def FRICTION_def STIFFNESS_def

section \<open>String helpers of the JavaScript runtime\<close>

text \<open>
  \<open>String.prototype.toLowerCase\<close>, on the ASCII letters: \<open>A\<close> to \<open>Z\<close> are mapped to
  \<open>a\<close> to \<open>z\<close>, every other character is kept.
\<close>

definition lowerChar :: "char \<Rightarrow> char" where
  "lowerChar c =
     (case map_of (zip ''ABCDEFGHIJKLMNOPQRSTUVWXYZ'' ''abcdefghijklmnopqrstuvwxyz'') c of
        Some d \<Rightarrow> d
      | None \<Rightarrow> c)"

definition toLowerCase :: "string \<Rightarrow> string" where
  "toLowerCase s = map lowerChar s"

text \<open>\<open>String.prototype.includes\<close>: the argument occurs as a contiguous substring.\<close>

fun startsWith :: "string \<Rightarrow> string \<Rightarrow> bool" where
  "startsWith s [] = True"
| "startsWith [] (q # qs) = False"
| "startsWith (c # cs) (q # qs) = (c = q \<and> startsWith cs qs)"

fun str_includes :: "string \<Rightarrow> string \<Rightarrow> bool" where
  "str_includes [] q = (q = [])"
| "str_includes (c # cs) q = (startsWith (c # cs) q \<or> str_includes cs q)"

text \<open>\<open>Array.prototype.some\<close> and \<open>Array.prototype.find\<close>.\<close>

fun some :: "('a \<Rightarrow> bool) \<Rightarrow> 'a list \<Rightarrow> bool" where
  "some f [] = False"
| "some f (a # as) = (f a \<or> some f as)"

fun find_first :: "('a \<Rightarrow> bool) \<Rightarrow> 'a list \<Rightarrow> 'a option" where
  "find_first f [] = None"
| "find_first f (a # as) = (if f a then Some a else find_first f as)"

section \<open>Relevance\<close>

text \<open>
  \<open>calculateRelevance\<close> (lines 61 to 74). The variable \<open>score\<close> is threaded through
  the four conditional increments in the order of the source. The last line,
  \<open>Math.min(score, 1.0) || 0.05\<close>, yields \<open>0.05\<close> exactly when the minimum is \<open>0\<close>.
\<close>

definition calculateRelevance :: "string \<Rightarrow> Item \<Rightarrow> real" where
  "calculateRelevance query item =
     (if query = [] then 0.1
      else
        let q = toLowerCase query;
            score0 = 0;
            score1 = (if str_includes (toLowerCase (i_title item)) q then score0 + 0.6 else score0);
            score2 = (if str_includes (toLowerCase (i_category item)) q then score1 + 0.3 else score1);
            score3 = (if some (\<lambda>t. str_includes (toLowerCase t) q) (i_tags item)
                      then score2 + 0.2 else score2);
            score4 = (if toLowerCase (i_title item) = q then score3 + 0.4 else score3);
            m = min score4 1.0
        in if m = 0 then 0.05 else m)"

text \<open>
  The score as the specification words it: a sum of four weights, clamped above by \<open>1\<close>,
  with \<open>0\<close> replaced by \<open>0.05\<close>.
\<close>

definition weight :: "bool \<Rightarrow> real \<Rightarrow> real" where
  "weight b w = (if b then w else 0)"

definition relevance_spec :: "string \<Rightarrow> Item \<Rightarrow> real" where
  "relevance_spec query item =
     (if query = [] then 0.1
      else
        let q = toLowerCase query;
            total = weight (str_includes (toLowerCase (i_title item)) q) 0.6
                  + weight (str_includes (toLowerCase (i_category item)) q) 0.3
                  + weight (\<exists>t \<in> set (i_tags item). str_includes (toLowerCase t) q) 0.2
                  + weight (toLowerCase (i_title item) = q) 0.4;
            clamped = min total 1.0
        in if clamped = 0 then 0.05 else clamped)"

definition matches_nothing :: "string \<Rightarrow> Item \<Rightarrow> bool" where
  "matches_nothing query item =
     (let q = toLowerCase query
      in \<not> str_includes (toLowerCase (i_title item)) q
       \<and> \<not> str_includes (toLowerCase (i_category item)) q
       \<and> \<not> some (\<lambda>t. str_includes (toLowerCase t) q) (i_tags item))"

section \<open>The catalogue\<close>

definition MOCK_ITEMS :: "Item list" where
  "MOCK_ITEMS =
    [\<lparr>i_id = ''1'', i_title = ''Neon Tokyo'', i_category = ''Cyberpunk'',
      i_image = ''https://images.unsplash.com/photo-1540979388789-6cee28a1cdc9?q=80&w=1000&auto=format&fit=crop'',
      i_tags = [''city'', ''night'', ''lights'', ''neon'']\<rparr>,
     \<lparr>i_id = ''2'', i_title = ''Alpine Solitude'', i_category = ''Nature'',
      i_image = ''https://images.unsplash.com/photo-1519681393784-d120267933ba?q=80&w=1000&auto=format&fit=crop'',
      i_tags = [''mountain'', ''snow'', ''winter'', ''peace'']\<rparr>,
     \<lparr>i_id = ''3'', i_title = ''Desert Mirage'', i_category = ''Nature'',
      i_image = ''https://images.unsplash.com/photo-1473580044384-7ba9967e16a0?q=80&w=1000&auto=format&fit=crop'',
      i_tags = [''sand'', ''heat'', ''dry'', ''orange'']\<rparr>,
     \<lparr>i_id = ''4'', i_title = ''Deep Ocean'', i_category = ''Abstract'',
      i_image = ''https://images.unsplash.com/photo-1551244072-5d12893278ab?q=80&w=1000&auto=format&fit=crop'',
      i_tags = [''blue'', ''water'', ''dark'', ''mystery'']\<rparr>,
     \<lparr>i_id = ''5'', i_title = ''Urban Jungle'', i_category = ''Architecture'',
      i_image = ''https://images.unsplash.com/photo-1449824913935-59a10b8d2000?q=80&w=1000&auto=format&fit=crop'',
      i_tags = [''building'', ''green'', ''city'', ''modern'']\<rparr>,
     \<lparr>i_id = ''6'', i_title = ''Cosmic Dust'', i_category = ''Space'',
      i_image = ''https://images.unsplash.com/photo-1534796636912-3b95b3ab5986?q=80&w=1000&auto=format&fit=crop'',
      i_tags = [''stars'', ''galaxy'', ''purple'', ''dust'']\<rparr>,
     \<lparr>i_id = ''7'', i_title = ''Glass Prism'', i_category = ''Abstract'',
      i_image = ''https://images.unsplash.com/photo-1504198458649-3128b932f49e?q=80&w=1000&auto=format&fit=crop'',
      i_tags = [''light'', ''refraction'', ''color'', ''shape'']\<rparr>,
     \<lparr>i_id = ''8'', i_title = ''Forest Mist'', i_category = ''Nature'',
      i_image = ''https://images.unsplash.com/photo-1441974231531-c6227db76b6e?q=80&w=1000&auto=format&fit=crop'',
      i_tags = [''trees'', ''fog'', ''green'', ''morning'']\<rparr>,
     \<lparr>i_id = ''9'', i_title = ''Cyber Circuit'', i_category = ''Tech'',
      i_image = ''https://images.unsplash.com/photo-1518770660439-4636190af475?q=80&w=1000&auto=format&fit=crop'',
      i_tags = [''computer'', ''chip'', ''data'', ''future'']\<rparr>,
     \<lparr>i_id = ''10'', i_title = ''Volcanic Ash'', i_category = ''Nature'',
      i_image = ''https://images.unsplash.com/photo-1462331940025-496dfbfc7564?q=80&w=1000&auto=format&fit=crop'',
      i_tags = [''fire'', ''dark'', ''smoke'', ''power'']\<rparr>,
     \<lparr>i_id = ''11'', i_title = ''Geometric Wall'', i_category = ''Architecture'',
      i_image = ''https://images.unsplash.com/photo-1486325212027-8081e485255e?q=80&w=1000&auto=format&fit=crop'',
      i_tags = [''pattern'', ''white'', ''shadow'', ''minimal'']\<rparr>,
     \<lparr>i_id = ''12'', i_title = ''Liquid Gold'', i_category = ''Abstract'',
      i_image = ''https://images.unsplash.com/photo-1500462918059-b1a0cb512f1d?q=80&w=1000&auto=format&fit=crop'',
      i_tags = [''yellow'', ''fluid'', ''shiny'', ''metal'']\<rparr>]"

text \<open>The first item of the catalogue, used in the worked examples below.\<close>

definition neonTokyo :: Item where
  "neonTokyo =
     \<lparr>i_id = ''1'', i_title = ''Neon Tokyo'', i_category = ''Cyberpunk'',
      i_image = ''https://images.unsplash.com/photo-1540979388789-6cee28a1cdc9?q=80&w=1000&auto=format&fit=crop'',
      i_tags = [''city'', ''night'', ''lights'', ''neon'']\<rparr>"

section \<open>Simulation state\<close>

text \<open>
  The initialization effect (lines 86 to 96). \<open>Math.random()\<close> is read from a list of
  draws, one pair per item: the first component is the draw for \<open>x\<close>, the second the
  draw for \<open>y\<close>.
\<close>

definition initPoint :: "Item \<Rightarrow> real \<times> real \<Rightarrow> Point" where
  "initPoint item rnd =
     \<lparr>p_x = fst rnd * CANVAS_WIDTH,
      p_y = snd rnd * CANVAS_HEIGHT,
      p_vx = 0,
      p_vy = 0,
      p_r = BASE_RADIUS,
      p_targetR = BASE_RADIUS,
      p_id = i_id item\<rparr>"

definition initPoints :: "(real \<times> real) list \<Rightarrow> Point list" where
  "initPoints rnd = map2 initPoint MOCK_ITEMS rnd"

text \<open>
  The query effect (lines 99 to 106). \<open>findItem p\<close> is the expression
  \<open>MOCK_ITEMS.find(i => i.id === p.id)\<close>, which may return \<open>undefined\<close>; the non-null
  assertion \<open>!\<close> is erased at run time, and \<open>calculateRelevance\<close> then returns \<open>0.1\<close>
  on the empty query and raises a TypeError at \<open>item.title\<close> otherwise.
\<close>

definition relevanceOf :: "string \<Rightarrow> Item option \<Rightarrow> error + real" where
  "relevanceOf query found =
     (case found of
        Some item \<Rightarrow> Inr (calculateRelevance query item)
      | None \<Rightarrow> if query = [] then Inr 0.1 else Inl TypeError)"

definition findItem :: "Point \<Rightarrow> Item option" where
  "findItem p = find_first (\<lambda>i. i_id i = p_id p) MOCK_ITEMS"

definition updateTarget :: "string \<Rightarrow> Point \<Rightarrow> error + Point" where
  "updateTarget query p =
     (case relevanceOf query (findItem p) of
        Inl e \<Rightarrow> Inl e
      | Inr relevance \<Rightarrow>
          Inr (p\<lparr>p_targetR :=
                 BASE_RADIUS + (MAX_RADIUS - BASE_RADIUS) * (if relevance > 0.1 then relevance else 0)\<rparr>))"

fun updateTargets :: "string \<Rightarrow> Point list \<Rightarrow> error + Point list" where
  "updateTargets query [] = Inr []"
| "updateTargets query (p # ps) =
     (case updateTarget query p of
        Inl e \<Rightarrow> Inl e
      | Inr p' \<Rightarrow>
          (case updateTargets query ps of
             Inl e \<Rightarrow> Inl e
           | Inr ps' \<Rightarrow> Inr (p' # ps')))"

text \<open>The target radius as the specification words it.\<close>

definition targetRadius_spec :: "real \<Rightarrow> real" where
  "targetRadius_spec score =
     (if score \<le> 0.1 then BASE_RADIUS else BASE_RADIUS + (MAX_RADIUS - BASE_RADIUS) * score)"

section \<open>One tick of \<open>animate\<close>\<close>

subsection \<open>Physics step (lines 113 to 129)\<close>

definition physicsStep :: "Point \<Rightarrow> Point" where
  "physicsStep p0 =
     (let p1 = p0\<lparr>p_r := p_r p0 + (p_targetR p0 - p_r p0) * 0.1\<rparr>;
          dx = CANVAS_WIDTH / 2 - p_x p1;
          dy = CANVAS_HEIGHT / 2 - p_y p1;
          p2 = p1\<lparr>p_vx := p_vx p1 + dx * 0.001\<rparr>;
          p3 = p2\<lparr>p_vy := p_vy p2 + dy * 0.001\<rparr>;
          p4 = p3\<lparr>p_vx := p_vx p3 * FRICTION\<rparr>;
          p5 = p4\<lparr>p_vy := p_vy p4 * FRICTION\<rparr>;
          p6 = p5\<lparr>p_x := p_x p5 + p_vx p5\<rparr>;
          p7 = p6\<lparr>p_y := p_y p6 + p_vy p6\<rparr>
      in p7)"

text \<open>The four stages of the step as the specification lists them.\<close>

definition radiusSmoothing :: "Point \<Rightarrow> Point" where
  "radiusSmoothing p = p\<lparr>p_r := p_r p + (p_targetR p - p_r p) * 0.1\<rparr>"

definition centering :: "Point \<Rightarrow> Point" where
  "centering p =
     p\<lparr>p_vx := p_vx p + (CANVAS_WIDTH / 2 - p_x p) * 0.001,
       p_vy := p_vy p + (CANVAS_HEIGHT / 2 - p_y p) * 0.001\<rparr>"

definition friction :: "Point \<Rightarrow> Point" where
  "friction p = p\<lparr>p_vx := p_vx p * 0.9, p_vy := p_vy p * 0.9\<rparr>"

definition integration :: "Point \<Rightarrow> Point" where
  "integration p = p\<lparr>p_x := p_x p + p_vx p, p_y := p_y p + p_vy p\<rparr>"

subsection \<open>Collision resolution (lines 133 to 157)\<close>

text \<open>
  \<open>Math.atan2(y, x)\<close> on finite arguments, as ECMAScript defines it: the angle of the
  vector \<open>(x, y)\<close> in \<open>(-\<pi>, \<pi>]\<close>, and \<open>0\<close> for the zero vector.
\<close>

definition atan2 :: "real \<Rightarrow> real \<Rightarrow> real" where
  "atan2 y x =
     (if 0 < x then arctan (y / x)
      else if x < 0 then (if 0 \<le> y then arctan (y / x) + pi else arctan (y / x) - pi)
      else if 0 < y then pi / 2
      else if y < 0 then - (pi / 2)
      else 0)"

text \<open>The body of the inner loop, on the two points \<open>points[i]\<close> and \<open>points[j]\<close>.\<close>

definition collide :: "Point \<Rightarrow> Point \<Rightarrow> Point \<times> Point" where
  "collide p1 p2 =
     (let dx = p_x p2 - p_x p1;
          dy = p_y p2 - p_y p1;
          dist = sqrt (dx * dx + dy * dy);
          minDist = (p_r p1 + p_r p2) * 0.8
      in if dist < minDist then
           let force = (minDist - dist) * STIFFNESS;
               angle = atan2 dy dx;
               fx = cos angle * force;
               fy = sin angle * force
           in (p1\<lparr>p_x := p_x p1 - fx, p_y := p_y p1 - fy\<rparr>,
               p2\<lparr>p_x := p_x p2 + fx, p_y := p_y p2 + fy\<rparr>)
         else (p1, p2))"

text \<open>
  The inner loop \<open>for (j = ...; j < points.length; j++)\<close> from a given \<open>j\<close>, and the
  outer loop from a given \<open>i\<close>. The array is mutated in place: the two points of the
  pair are written back at their indices before the next pair is read.
\<close>

function innerLoop :: "nat \<Rightarrow> nat \<Rightarrow> Point list \<Rightarrow> Point list" where
  "innerLoop i j points =
     (if j < length points then
        let (p1, p2) = collide (points ! i) (points ! j)
        in innerLoop i (j + 1) (points[i := p1, j := p2])
      else points)"
  by pat_completeness auto
termination
  by (relation "measure (\<lambda>(i, j, points). length points - j)") auto

declare innerLoop.simps [simp del]

lemma length_innerLoop: "length (innerLoop i j points) = length points"
proof (induction i j points rule: innerLoop.induct)
  case (1 i j points)
  show ?case
  proof (cases "j < length points")
    case True
    obtain p1 p2 where c: "collide (points ! i) (points ! j) = (p1, p2)"
      by (cases "collide (points ! i) (points ! j)")
    from True c "1.IH" [OF True c [symmetric] refl] show ?thesis
      by (subst innerLoop.simps) simp
  next
    case False
    then show ?thesis by (subst innerLoop.simps) simp
  qed
qed

function outerLoop :: "nat \<Rightarrow> Point list \<Rightarrow> Point list" where
  "outerLoop i points =
     (if i < length points then outerLoop (i + 1) (innerLoop i (i + 1) points)
      else points)"
  by pat_completeness auto
termination
  by (relation "measure (\<lambda>(i, points). length points - i)") (auto simp: length_innerLoop)

declare outerLoop.simps [simp del]

definition collisionPass :: "Point list \<Rightarrow> Point list" where
  "collisionPass points = outerLoop 0 points"

text \<open>
  The pass as the specification words it: every unordered pair \<open>i < j\<close> once, in the
  order of the two loops.
\<close>

definition resolvePair :: "Point list \<Rightarrow> nat \<times> nat \<Rightarrow> Point list" where
  "resolvePair points ij =
     (let (p1, p2) = collide (points ! fst ij) (points ! snd ij)
      in points[fst ij := p1, snd ij := p2])"

definition allPairs :: "nat \<Rightarrow> (nat \<times> nat) list" where
  "allPairs n = concat (map (\<lambda>i. map (\<lambda>j. (i, j)) [i + 1 ..< n]) [0 ..< n])"

subsection \<open>Bounds clamp (lines 160 to 163)\<close>

definition boundsClamp :: "Point \<Rightarrow> Point" where
  "boundsClamp p0 =
     (let p1 = p0\<lparr>p_x := max 0 (min CANVAS_WIDTH (p_x p0))\<rparr>;
          p2 = p1\<lparr>p_y := max 0 (min CANVAS_HEIGHT (p_y p1))\<rparr>
      in p2)"

subsection \<open>Cells (lines 167 to 183)\<close>

text \<open>
  The Voronoi diagram comes from the library d3-delaunay, which is not part of the
  repository. It enters as the parameter \<open>renderCell\<close>: for the list of positions handed
  to \<open>Delaunay.from\<close> and an index \<open>i\<close>, the path that \<open>voronoi.renderCell(i)\<close>
  returns for the canvas rectangle, or \<open>None\<close> when it returns no path.
\<close>

type_synonym renderer = "(real \<times> real) list \<Rightarrow> nat \<Rightarrow> string option"

definition makeCell :: "(nat \<Rightarrow> string option) \<Rightarrow> Point \<Rightarrow> nat \<Rightarrow> Cell" where
  "makeCell voronoi p i =
     (let item = findItem p;
          path = voronoi i;
          relevance = (p_r p - BASE_RADIUS) / (MAX_RADIUS - BASE_RADIUS)
      in \<lparr>c_path = path, c_item = item, c_relevance = relevance, c_center = (p_x p, p_y p)\<rparr>)"

definition generateCells :: "renderer \<Rightarrow> Point list \<Rightarrow> Cell list" where
  "generateCells renderCell points =
     (let voronoi = renderCell (map (\<lambda>p. (p_x p, p_y p)) points)
      in map2 (makeCell voronoi) points [0 ..< length points])"

text \<open>
  One call of \<open>animate\<close>: the new contents of \<open>pointsRef.current\<close> and the cells
  handed to \<open>setCells\<close>.
\<close>

definition animatePoints :: "Point list \<Rightarrow> Point list" where
  "animatePoints points = map boundsClamp (collisionPass (map physicsStep points))"

definition animate :: "renderer \<Rightarrow> Point list \<Rightarrow> Point list \<times> Cell list" where
  "animate renderCell points =
     (let points' = animatePoints points
      in (points', generateCells renderCell points'))"

text \<open>The relevance of a cell as the specification words it.\<close>

definition clamp01 :: "real \<Rightarrow> real" where
  "clamp01 v = max 0 (min 1 v)"

definition relevance_cell_spec :: "Point \<Rightarrow> real" where
  "relevance_cell_spec p = clamp01 ((p_r p - BASE_RADIUS) / (MAX_RADIUS - BASE_RADIUS))"

subsection \<open>States the component can be in\<close>

text \<open>
  \<open>pointsRef.current\<close> starts as the empty array, is set by the initialization effect
  from draws of \<open>Math.random()\<close> (each in \<open>[0, 1)\<close>), and is then changed only by the
  query effect and by \<open>animate\<close>.
\<close>

definition draw_ok :: "real \<times> real \<Rightarrow> bool" where
  "draw_ok d = (0 \<le> fst d \<and> fst d < 1 \<and> 0 \<le> snd d \<and> snd d < 1)"

inductive reachable :: "Point list \<Rightarrow> bool" where
  start: "reachable []"
| init: "length rnd = length MOCK_ITEMS \<Longrightarrow> list_all draw_ok rnd \<Longrightarrow> reachable (initPoints rnd)"
| query: "reachable points \<Longrightarrow> updateTargets q points = Inr points' \<Longrightarrow> reachable points'"
| tick: "reachable points \<Longrightarrow> reachable (animatePoints points)"

subsection \<open>Quantities the specification names\<close>

text \<open>
  The quantities of the collision rule as the specification names them: the distance of
  two points, the permitted distance \<open>minDist\<close>, the force magnitude, the unit vector
  from \<open>p1\<close> to \<open>p2\<close>, and a displacement by a multiple of a vector.
\<close>

definition distance :: "Point \<Rightarrow> Point \<Rightarrow> real" where
  "distance p1 p2 = sqrt ((p_x p2 - p_x p1)\<^sup>2 + (p_y p2 - p_y p1)\<^sup>2)"

definition minDist :: "Point \<Rightarrow> Point \<Rightarrow> real" where
  "minDist p1 p2 = (p_r p1 + p_r p2) * 0.8"

definition force :: "Point \<Rightarrow> Point \<Rightarrow> real" where
  "force p1 p2 = (minDist p1 p2 - distance p1 p2) * 0.05"

definition displace :: "Point \<Rightarrow> real \<Rightarrow> real \<times> real \<Rightarrow> Point" where
  "displace p a u = p\<lparr>p_x := p_x p + a * fst u, p_y := p_y p + a * snd u\<rparr>"

definition unitVector :: "Point \<Rightarrow> Point \<Rightarrow> real \<times> real" where
  "unitVector p1 p2 =
     ((p_x p2 - p_x p1) / distance p1 p2, (p_y p2 - p_y p1) / distance p1 p2)"

text \<open>The pairs the two loops visit from row \<open>i\<close> on.\<close>

definition pairsFrom :: "nat \<Rightarrow> nat \<Rightarrow> (nat \<times> nat) list" where
  "pairsFrom i n = concat (map (\<lambda>i. map (Pair i) [i + 1 ..< n]) [i ..< n])"

text \<open>A point at rest with radius \<open>60\<close> and id \<open>1\<close>, used in the worked examples below.\<close>

definition pointAt :: "real \<Rightarrow> real \<Rightarrow> Point" where
  "pointAt a b = \<lparr>p_x = a, p_y = b, p_vx = 0, p_vy = 0, p_r = 60, p_targetR = 60, p_id = ''1''\<rparr>"

text \<open>A position inside the canvas rectangle \<open>[0, W] \<times> [0, H]\<close>.\<close>

definition inBounds :: "Point \<Rightarrow> bool" where
  "inBounds p = (0 \<le> p_x p \<and> p_x p \<le> CANVAS_WIDTH \<and> 0 \<le> p_y p \<and> p_y p \<le> CANVAS_HEIGHT)"

text \<open>Both radii of a point inside \<open>[BASE_RADIUS, MAX_RADIUS]\<close>.\<close>

definition radiiOk :: "Point \<Rightarrow> bool" where
  "radiiOk p =
     (BASE_RADIUS \<le> p_r p \<and> p_r p \<le> MAX_RADIUS
      \<and> BASE_RADIUS \<le> p_targetR p \<and> p_targetR p \<le> MAX_RADIUS)"

text \<open>
  A cell carries the relevance the specification gives for its point, and that value is
  in \<open>[0, 1]\<close>.
\<close>

definition cellRelevanceOk :: "Cell \<Rightarrow> Point \<Rightarrow> bool" where
  "cellRelevanceOk c p =
     (c_relevance c = relevance_cell_spec p \<and> 0 \<le> c_relevance c \<and> c_relevance c \<le> 1)"

text \<open>
  A renderer for the worked examples. It stands for d3-delaunay on coincident positions:
  a point whose position repeats that of an earlier point has no polygon, every other
  point gets a path (here always the canvas rectangle).
\<close>

definition coincidentRenderer :: renderer where
  "coincidentRenderer positions i =
     (if positions ! i \<in> set (take i positions) then None
      else Some ''M0,0L1200,0L1200,800L0,800Z'')"

text \<open>
  More fixtures: twelve draws of \<open>Math.random()\<close> that are all \<open>0.5\<close>, and a point to
  the right of the canvas.
\<close>

definition halves :: "(real \<times> real) list" where
  "halves = replicate 12 (1 / 2, 1 / 2)"

definition beyondEdge :: "string \<Rightarrow> Point" where
  "beyondEdge ident = (pointAt 1300 400)\<lparr>p_id := ident\<rparr>"

section \<open>Facts about the string helpers\<close>

lemma startsWith_iff: "startsWith s q \<longleftrightarrow> (\<exists>rest. s = q @ rest)"
  by (induction s q rule: startsWith.induct) auto

lemma startsWith_refl: "startsWith s s"
  by (simp add: startsWith_iff)

lemma str_includes_refl: "str_includes s s"
  by (cases s) (simp_all add: startsWith_refl)

lemma str_includes_iff: "str_includes s q \<longleftrightarrow> (\<exists>pre post. s = pre @ q @ post)"
proof (induction s)
  case Nil
  then show ?case by auto
next
  case (Cons c cs)
  show ?case
  proof
    assume "str_includes (c # cs) q"
    then consider "startsWith (c # cs) q" | "str_includes cs q" by auto
    then show "\<exists>pre post. c # cs = pre @ q @ post"
    proof cases
      case 1
      then obtain rest where "c # cs = q @ rest" by (auto simp: startsWith_iff)
      then have "c # cs = [] @ q @ rest" by simp
      then show ?thesis by blast
    next
      case 2
      then obtain pre post where "cs = pre @ q @ post" using Cons.IH by auto
      then have "c # cs = (c # pre) @ q @ post" by simp
      then show ?thesis by blast
    qed
  next
    assume "\<exists>pre post. c # cs = pre @ q @ post"
    then obtain pre post where e: "c # cs = pre @ q @ post" by blast
    show "str_includes (c # cs) q"
    proof (cases pre)
      case Nil
      with e have "startsWith (c # cs) q" by (auto simp: startsWith_iff)
      then show ?thesis by simp
    next
      case (Cons d ds)
      with e have "cs = ds @ q @ post" by simp
      then have "str_includes cs q" using Cons.IH by blast
      then show ?thesis by simp
    qed
  qed
qed

lemma some_iff: "some f xs \<longleftrightarrow> (\<exists>a \<in> set xs. f a)"
  by (induction xs) auto

section \<open>Relevance score\<close>

lemma calculateRelevance_refines:
  "calculateRelevance query item = relevance_spec query item"
  by (simp add: calculateRelevance_def relevance_spec_def weight_def some_iff Let_def)

lemma calculateRelevance_range:
  "0.05 \<le> calculateRelevance query item \<and> calculateRelevance query item \<le> 1"
  by (simp add: calculateRelevance_def Let_def)

text \<open>
  Claim C1. For every item and every query, \<open>calculateRelevance\<close> is the score the
  specification describes: \<open>0.1\<close> on the empty query; otherwise the sum of \<open>0.6\<close>
  (lower-cased title contains the lower-cased query), \<open>0.3\<close> (category), \<open>0.2\<close> (some
  tag) and \<open>0.4\<close> (lower-cased title equals the lower-cased query), clamped above by
  \<open>1\<close>, and \<open>0.05\<close> when that is \<open>0\<close>. A non-empty query equal to the title scores
  exactly \<open>1\<close>, a non-empty query matching nothing scores \<open>0.05\<close>, and the score is
  never \<open>0\<close>.
\<close>

theorem C1_calculateRelevance:
  "calculateRelevance query item = relevance_spec query item
   \<and> (query = [] \<longrightarrow> calculateRelevance query item = 0.1)
   \<and> (query \<noteq> [] \<and> query = i_title item \<longrightarrow> calculateRelevance query item = 1)
   \<and> (query \<noteq> [] \<and> matches_nothing query item \<longrightarrow> calculateRelevance query item = 0.05)
   \<and> calculateRelevance query item \<noteq> 0"
proof -
  have a: "calculateRelevance query item = relevance_spec query item"
    by (rule calculateRelevance_refines)
  have b: "query = [] \<longrightarrow> calculateRelevance query item = 0.1"
    by (simp add: calculateRelevance_def)
  have c: "query \<noteq> [] \<and> query = i_title item \<longrightarrow> calculateRelevance query item = 1"
    by (simp add: calculateRelevance_def Let_def str_includes_refl)
  have d: "query \<noteq> [] \<and> matches_nothing query item \<longrightarrow> calculateRelevance query item = 0.05"
  proof (intro impI, elim conjE)
    assume q: "query \<noteq> []" and m: "matches_nothing query item"
    from m have "toLowerCase (i_title item) \<noteq> toLowerCase query"
      using str_includes_refl [of "toLowerCase query"] by (auto simp: matches_nothing_def Let_def)
    with q m show "calculateRelevance query item = 0.05"
      by (simp add: calculateRelevance_def matches_nothing_def Let_def)
  qed
  have e: "calculateRelevance query item \<noteq> 0"
    using calculateRelevance_range [of query item] by simp
  from a b c d e show ?thesis by blast
qed

theorem C1_calculateRelevance_witness:
  "calculateRelevance ''Neon Tokyo'' neonTokyo = 1
   \<and> calculateRelevance '''' neonTokyo = 0.1
   \<and> matches_nothing ''ocean'' neonTokyo
   \<and> calculateRelevance ''ocean'' neonTokyo = 0.05"
proof -
  have m: "matches_nothing ''ocean'' neonTokyo"
    unfolding matches_nothing_def neonTokyo_def Let_def
    by (simp add: toLowerCase_def lowerChar_def)
  have t: "''Neon Tokyo'' \<noteq> [] \<and> ''Neon Tokyo'' = i_title neonTokyo"
    by (simp add: neonTokyo_def)
  have o: "''ocean'' \<noteq> [] \<and> matches_nothing ''ocean'' neonTokyo"
    using m by simp
  have 1: "calculateRelevance ''Neon Tokyo'' neonTokyo = 1"
    using C1_calculateRelevance [of "''Neon Tokyo''" neonTokyo] t by blast
  have 2: "calculateRelevance '''' neonTokyo = 0.1"
    using C1_calculateRelevance [of "''''" neonTokyo] by blast
  have 3: "calculateRelevance ''ocean'' neonTokyo = 0.05"
    using C1_calculateRelevance [of "''ocean''" neonTokyo] o by blast
  from 1 2 m 3 show ?thesis by blast
qed

section \<open>The query effect\<close>

lemma updateTarget_found:
  "findItem p = Some item \<Longrightarrow>
   updateTarget query p = Inr (p\<lparr>p_targetR := targetRadius_spec (calculateRelevance query item)\<rparr>)"
  by (simp add: updateTarget_def relevanceOf_def targetRadius_spec_def not_less)

lemma updateTarget_empty:
  "updateTarget [] p = Inr (p\<lparr>p_targetR := BASE_RADIUS\<rparr>)"
  by (simp add: updateTarget_def relevanceOf_def calculateRelevance_def split: option.splits)

lemma updateTargets_found:
  "list_all (\<lambda>p. findItem p \<noteq> None) points \<Longrightarrow>
   updateTargets query points =
     Inr (map (\<lambda>p. p\<lparr>p_targetR := targetRadius_spec (calculateRelevance query (the (findItem p)))\<rparr>) points)"
  by (induction points) (auto simp: updateTarget_found)

lemma updateTargets_empty:
  "updateTargets [] points = Inr (map (\<lambda>p. p\<lparr>p_targetR := BASE_RADIUS\<rparr>) points)"
  by (induction points) (auto simp: updateTarget_empty)

section \<open>Worked values for the first item\<close>

lemma findItem_neon: "findItem (initPoint neonTokyo d) = Some neonTokyo"
  by (simp add: findItem_def initPoint_def neonTokyo_def MOCK_ITEMS_def)

lemma rel_neon: "calculateRelevance ''neon'' neonTokyo = 0.8"
  unfolding calculateRelevance_def neonTokyo_def Let_def
  by (simp add: toLowerCase_def lowerChar_def)

section \<open>Physics step\<close>

text \<open>
  Claim C4. The kinematic update of a point is, in this order, radius smoothing
  \<open>r := r + (targetR - r) * 0.1\<close>, centering \<open>v := v + (center - position) * 0.001\<close>,
  friction \<open>v := v * 0.9\<close> and integration \<open>position := position + v\<close> with the
  velocity just updated.
\<close>

theorem C4_physicsStep:
  "physicsStep p = integration (friction (centering (radiusSmoothing p)))
   \<and> p_r (physicsStep p) = p_r p + (p_targetR p - p_r p) * 0.1
   \<and> p_vx (physicsStep p) = (p_vx p + (CANVAS_WIDTH / 2 - p_x p) * 0.001) * 0.9
   \<and> p_vy (physicsStep p) = (p_vy p + (CANVAS_HEIGHT / 2 - p_y p) * 0.001) * 0.9
   \<and> p_x (physicsStep p) = p_x p + p_vx (physicsStep p)
   \<and> p_y (physicsStep p) = p_y p + p_vy (physicsStep p)
   \<and> p_targetR (physicsStep p) = p_targetR p
   \<and> p_id (physicsStep p) = p_id p"
  by (simp add: physicsStep_def integration_def friction_def centering_def radiusSmoothing_def
      FRICTION_def Let_def)

theorem C4_physicsStep_witness:
  "physicsStep ((pointAt 100 100)\<lparr>p_targetR := 160\<rparr>)
     = (pointAt 100.45 100.27)\<lparr>p_vx := 0.45, p_vy := 0.27, p_r := 70, p_targetR := 160\<rparr>"
proof -
  let ?p = "(pointAt 100 100)\<lparr>p_targetR := 160\<rparr>"
  have "physicsStep ?p = integration (friction (centering (radiusSmoothing ?p)))"
    using C4_physicsStep [of ?p] by blast
  then show ?thesis
    by (simp add: integration_def friction_def centering_def radiusSmoothing_def pointAt_def
        consts_defs)
qed

section \<open>Bounds clamp\<close>

lemma boundsClamp_inBounds: "inBounds (boundsClamp p)"
  by (simp add: inBounds_def boundsClamp_def Let_def CANVAS_WIDTH_def CANVAS_HEIGHT_def)

lemma boundsClamp_fields:
  "p_vx (boundsClamp p) = p_vx p" "p_vy (boundsClamp p) = p_vy p"
  "p_r (boundsClamp p) = p_r p" "p_targetR (boundsClamp p) = p_targetR p"
  "p_id (boundsClamp p) = p_id p"
  by (simp_all add: boundsClamp_def Let_def)

text \<open>
  Claim C6. After the bounds clamp, and so after every tick from any prior state, every
  point has \<open>0 \<le> x \<le> W\<close> and \<open>0 \<le> y \<le> H\<close>; the clamp changes only \<open>x\<close> and
  \<open>y\<close> and leaves the velocities (and every other field) as they were.
\<close>

theorem C6_boundsClamp:
  "list_all inBounds (map boundsClamp points)
   \<and> list_all inBounds (animatePoints points)
   \<and> map p_vx (map boundsClamp points) = map p_vx points
   \<and> map p_vy (map boundsClamp points) = map p_vy points
   \<and> map p_r (map boundsClamp points) = map p_r points
   \<and> map p_targetR (map boundsClamp points) = map p_targetR points
   \<and> map p_id (map boundsClamp points) = map p_id points"
  by (simp add: animatePoints_def list_all_iff boundsClamp_inBounds boundsClamp_fields)

section \<open>Collision resolution\<close>

subsection \<open>The direction computed from \<open>atan2\<close>\<close>

lemma sqrt_one_plus_quot:
  fixes x y :: real
  assumes "x \<noteq> 0"
  shows "sqrt (1 + (y / x)\<^sup>2) = sqrt (x * x + y * y) / \<bar>x\<bar>"
proof -
  have "1 + (y / x)\<^sup>2 = (x * x + y * y) / x\<^sup>2"
    using assms by (simp add: field_simps power2_eq_square)
  then show ?thesis
    by (simp add: real_sqrt_divide)
qed

lemma cos_atan2:
  assumes "x \<noteq> 0 \<or> y \<noteq> 0"
  shows "cos (atan2 y x) = x / sqrt (x * x + y * y)"
proof -
  consider "0 < x" | "x < 0" | "x = 0" "0 < y" | "x = 0" "y < 0"
    using assms by linarith
  then show ?thesis
  proof cases
    case 1
    then show ?thesis
      by (simp add: atan2_def cos_arctan sqrt_one_plus_quot)
  next
    case 2
    then show ?thesis
      by (simp add: atan2_def cos_arctan sqrt_one_plus_quot)
  next
    case 3
    then show ?thesis by (simp add: atan2_def)
  next
    case 4
    then show ?thesis by (simp add: atan2_def)
  qed
qed

lemma sin_atan2:
  assumes "x \<noteq> 0 \<or> y \<noteq> 0"
  shows "sin (atan2 y x) = y / sqrt (x * x + y * y)"
proof -
  consider "0 < x" | "x < 0" | "x = 0" "0 < y" | "x = 0" "y < 0"
    using assms by linarith
  then show ?thesis
  proof cases
    case 1
    then show ?thesis
      by (simp add: atan2_def sin_arctan sqrt_one_plus_quot)
  next
    case 2
    then show ?thesis
      by (simp add: atan2_def sin_arctan sqrt_one_plus_quot)
  next
    case 3
    then show ?thesis by (simp add: atan2_def)
  next
    case 4
    then show ?thesis by (simp add: atan2_def)
  qed
qed

lemma atan2_zero: "atan2 0 0 = 0"
  by (simp add: atan2_def)

subsection \<open>One pair\<close>

lemma distance_pos_iff: "0 < distance p1 p2 \<longleftrightarrow> p_x p1 \<noteq> p_x p2 \<or> p_y p1 \<noteq> p_y p2"
proof -
  have "0 < distance p1 p2 \<longleftrightarrow> (p_x p2 - p_x p1)\<^sup>2 + (p_y p2 - p_y p1)\<^sup>2 \<noteq> 0"
    unfolding distance_def
    by (metis real_sqrt_gt_0_iff sum_power2_gt_zero_iff sum_power2_eq_zero_iff less_irrefl)
  also have "\<dots> \<longleftrightarrow> p_x p1 \<noteq> p_x p2 \<or> p_y p1 \<noteq> p_y p2"
    by auto
  finally show ?thesis .
qed

lemma unitVector_norm:
  assumes "0 < distance p1 p2"
  shows "(fst (unitVector p1 p2))\<^sup>2 + (snd (unitVector p1 p2))\<^sup>2 = 1"
proof -
  let ?d = "distance p1 p2"
  have d2: "?d\<^sup>2 = (p_x p2 - p_x p1)\<^sup>2 + (p_y p2 - p_y p1)\<^sup>2"
    by (simp add: distance_def)
  have "(fst (unitVector p1 p2))\<^sup>2 + (snd (unitVector p1 p2))\<^sup>2
        = ((p_x p2 - p_x p1)\<^sup>2 + (p_y p2 - p_y p1)\<^sup>2) / ?d\<^sup>2"
    by (simp add: unitVector_def power_divide add_divide_distrib)
  also have "\<dots> = ?d\<^sup>2 / ?d\<^sup>2" by (simp only: d2)
  also have "\<dots> = 1" using assms by simp
  finally show ?thesis .
qed

lemma collide_far:
  assumes "minDist p1 p2 \<le> distance p1 p2"
  shows "collide p1 p2 = (p1, p2)"
  using assms
  by (simp add: collide_def distance_def minDist_def power2_eq_square Let_def)

lemma collide_near:
  assumes "distance p1 p2 < minDist p1 p2" and "0 < distance p1 p2"
  shows "collide p1 p2 =
           (displace p1 (- force p1 p2) (unitVector p1 p2),
            displace p2 (force p1 p2) (unitVector p1 p2))"
proof -
  let ?dx = "p_x p2 - p_x p1" and ?dy = "p_y p2 - p_y p1"
  have nz: "?dx \<noteq> 0 \<or> ?dy \<noteq> 0"
    using assms(2) by (auto simp: distance_pos_iff)
  have d: "sqrt (?dx * ?dx + ?dy * ?dy) = distance p1 p2"
    by (simp add: distance_def power2_eq_square)
  have c: "cos (atan2 ?dy ?dx) = ?dx / distance p1 p2"
    using cos_atan2 [OF nz] d by simp
  have s: "sin (atan2 ?dy ?dx) = ?dy / distance p1 p2"
    using sin_atan2 [OF nz] d by simp
  have "collide p1 p2 =
          (p1\<lparr>p_x := p_x p1 - cos (atan2 ?dy ?dx) * force p1 p2,
              p_y := p_y p1 - sin (atan2 ?dy ?dx) * force p1 p2\<rparr>,
           p2\<lparr>p_x := p_x p2 + cos (atan2 ?dy ?dx) * force p1 p2,
              p_y := p_y p2 + sin (atan2 ?dy ?dx) * force p1 p2\<rparr>)"
    using assms(1)
    by (simp add: collide_def Let_def distance_def minDist_def force_def STIFFNESS_def
        power2_eq_square)
  then show ?thesis
    by (simp add: c s displace_def unitVector_def)
qed

lemma collide_coincident:
  assumes "p_x p1 = p_x p2" and "p_y p1 = p_y p2" and "0 < minDist p1 p2"
  shows "collide p1 p2 =
           (p1\<lparr>p_x := p_x p1 - minDist p1 p2 * STIFFNESS\<rparr>,
            p2\<lparr>p_x := p_x p2 + minDist p1 p2 * STIFFNESS\<rparr>)"
  using assms
  by (simp add: collide_def minDist_def atan2_def Let_def)

lemma collide_sum:
  assumes "collide p1 p2 = (q1, q2)"
  shows "p_x q1 + p_x q2 = p_x p1 + p_x p2" and "p_y q1 + p_y q2 = p_y p1 + p_y p2"
  using assms by (auto simp: collide_def Let_def split: if_splits)

subsection \<open>The two loops as one pass over the pairs\<close>

lemma length_resolvePair: "length (resolvePair points ij) = length points"
  by (simp add: resolvePair_def split: prod.splits)

lemma innerLoop_step:
  "j < length points \<Longrightarrow>
   innerLoop i j points = innerLoop i (j + 1) (resolvePair points (i, j))"
  by (subst innerLoop.simps) (simp add: resolvePair_def split: prod.splits)

lemma innerLoop_stop: "\<not> j < length points \<Longrightarrow> innerLoop i j points = points"
  by (subst innerLoop.simps) simp

lemma innerLoop_fold:
  "innerLoop i j points = foldl resolvePair points (map (Pair i) [j ..< length points])"
proof (induction i j points rule: innerLoop.induct)
  case (1 i j points)
  show ?case
  proof (cases "j < length points")
    case True
    obtain p1 p2 where c: "collide (points ! i) (points ! j) = (p1, p2)"
      by (cases "collide (points ! i) (points ! j)")
    have r: "resolvePair points (i, j) = points[i := p1, j := p2]"
      by (simp add: resolvePair_def c)
    have "innerLoop i (j + 1) (points[i := p1, j := p2]) =
          foldl resolvePair (points[i := p1, j := p2])
            (map (Pair i) [j + 1 ..< length (points[i := p1, j := p2])])"
      using "1.IH" [OF True c [symmetric] refl] .
    then have "innerLoop i (j + 1) (resolvePair points (i, j)) =
          foldl resolvePair (resolvePair points (i, j)) (map (Pair i) [Suc j ..< length points])"
      by (simp add: r)
    moreover have "[j ..< length points] = j # [Suc j ..< length points]"
      using True by (simp add: upt_conv_Cons)
    ultimately show ?thesis
      using True by (simp add: innerLoop_step)
  next
    case False
    then show ?thesis by (simp add: innerLoop_stop)
  qed
qed

lemma length_foldl_resolvePair: "length (foldl resolvePair points ps) = length points"
  by (induction ps arbitrary: points) (simp_all add: length_resolvePair)

lemma outerLoop_step:
  "i < length points \<Longrightarrow> outerLoop i points = outerLoop (i + 1) (innerLoop i (i + 1) points)"
  by (subst outerLoop.simps) simp

lemma outerLoop_stop: "\<not> i < length points \<Longrightarrow> outerLoop i points = points"
  by (subst outerLoop.simps) simp

lemma outerLoop_fold:
  "outerLoop i points = foldl resolvePair points (pairsFrom i (length points))"
proof (induction i points rule: outerLoop.induct)
  case (1 i points)
  show ?case
  proof (cases "i < length points")
    case True
    let ?points' = "innerLoop i (i + 1) points"
    have len: "length ?points' = length points" by (rule length_innerLoop)
    have "outerLoop (i + 1) ?points' = foldl resolvePair ?points' (pairsFrom (i + 1) (length points))"
      using "1.IH" [OF True] len by simp
    moreover have "?points' = foldl resolvePair points (map (Pair i) [i + 1 ..< length points])"
      by (rule innerLoop_fold)
    moreover have "pairsFrom i (length points) =
        map (Pair i) [i + 1 ..< length points] @ pairsFrom (i + 1) (length points)"
      using True by (simp add: pairsFrom_def upt_conv_Cons)
    ultimately show ?thesis
      using True by (simp add: outerLoop_step)
  next
    case False
    then show ?thesis by (simp add: outerLoop_stop pairsFrom_def)
  qed
qed

lemma allPairs_pairsFrom: "allPairs n = pairsFrom 0 n"
  by (simp add: allPairs_def pairsFrom_def)

lemma collisionPass_fold:
  "collisionPass points = foldl resolvePair points (allPairs (length points))"
  by (simp add: collisionPass_def outerLoop_fold allPairs_pairsFrom)

lemma set_allPairs: "set (allPairs n) = {(i, j). i < j \<and> j < n}"
proof -
  have "(a, b) \<in> set (allPairs n) \<longleftrightarrow> a < b \<and> b < n" for a b
  proof
    assume "(a, b) \<in> set (allPairs n)"
    then show "a < b \<and> b < n" by (auto simp: allPairs_def)
  next
    assume ab: "a < b \<and> b < n"
    then have "a \<in> {0..<n}" and "(a, b) \<in> Pair a ` {Suc a..<n}" by auto
    then show "(a, b) \<in> set (allPairs n)"
      unfolding allPairs_def by (simp add: image_iff)
  qed
  then show ?thesis by auto
qed

lemma distinct_allPairs: "distinct (allPairs n)"
  unfolding allPairs_def
proof (rule distinct_concat)
  have "a = b" if "a < n" "b < n" "map (Pair a) [a + 1..<n] = map (Pair b) [b + 1..<n]" for a b
  proof -
    from that(3) have "length (map (Pair a) [a + 1..<n]) = length (map (Pair b) [b + 1..<n])"
      by (rule arg_cong)
    with that(1,2) show ?thesis by simp
  qed
  then show "distinct (map (\<lambda>i. map (Pair i) [i + 1..<n]) [0..<n])"
    by (auto simp: distinct_map inj_on_def)
next
  fix ys assume "ys \<in> set (map (\<lambda>i. map (Pair i) [i + 1..<n]) [0..<n])"
  then show "distinct ys" by (auto simp: distinct_map inj_on_def)
next
  fix ys zs
  assume "ys \<in> set (map (\<lambda>i. map (Pair i) [i + 1..<n]) [0..<n])"
    "zs \<in> set (map (\<lambda>i. map (Pair i) [i + 1..<n]) [0..<n])" "ys \<noteq> zs"
  then show "set ys \<inter> set zs = {}" by auto
qed

subsection \<open>The sum of the positions\<close>

lemma sum_list_update_real:
  fixes xs :: "real list"
  shows "k < length xs \<Longrightarrow> sum_list (xs[k := v]) = sum_list xs + v - xs ! k"
  by (induction xs arbitrary: k) (auto split: nat.splits)

lemma resolvePair_sum:
  assumes "i < j" and "j < length points"
  shows "sum_list (map p_x (resolvePair points (i, j))) = sum_list (map p_x points)"
    and "sum_list (map p_y (resolvePair points (i, j))) = sum_list (map p_y points)"
proof -
  obtain q1 q2 where c: "collide (points ! i) (points ! j) = (q1, q2)"
    by (cases "collide (points ! i) (points ! j)")
  have r: "resolvePair points (i, j) = points[i := q1, j := q2]"
    by (simp add: resolvePair_def c)
  from assms have ij: "i < length points" "i \<noteq> j" by auto
  have "sum_list (map p_x (points[i := q1, j := q2])) =
        sum_list (map p_x points) + p_x q1 - p_x (points ! i) + p_x q2 - p_x (points ! j)"
    using assms ij by (simp add: map_update sum_list_update_real)
  with collide_sum(1) [OF c] show "sum_list (map p_x (resolvePair points (i, j))) = sum_list (map p_x points)"
    by (simp add: r)
  have "sum_list (map p_y (points[i := q1, j := q2])) =
        sum_list (map p_y points) + p_y q1 - p_y (points ! i) + p_y q2 - p_y (points ! j)"
    using assms ij by (simp add: map_update sum_list_update_real)
  with collide_sum(2) [OF c] show "sum_list (map p_y (resolvePair points (i, j))) = sum_list (map p_y points)"
    by (simp add: r)
qed

lemma foldl_resolvePair_sum:
  assumes "\<forall>ij \<in> set ps. fst ij < snd ij \<and> snd ij < length points"
  shows "sum_list (map p_x (foldl resolvePair points ps)) = sum_list (map p_x points)
       \<and> sum_list (map p_y (foldl resolvePair points ps)) = sum_list (map p_y points)"
  using assms
proof (induction ps arbitrary: points)
  case Nil
  then show ?case by simp
next
  case (Cons ij ps)
  obtain i j where ij: "ij = (i, j)" by (cases ij)
  from Cons.prems ij have lt: "i < j" "j < length points" by auto
  have "\<forall>kl \<in> set ps. fst kl < snd kl \<and> snd kl < length (resolvePair points ij)"
    using Cons.prems by (simp add: length_resolvePair)
  from Cons.IH [OF this] resolvePair_sum [OF lt] show ?case
    by (simp add: ij)
qed

lemma collisionPass_sum:
  "sum_list (map p_x (collisionPass points)) = sum_list (map p_x points)
   \<and> sum_list (map p_y (collisionPass points)) = sum_list (map p_y points)"
  unfolding collisionPass_fold
  by (rule foldl_resolvePair_sum) (auto simp: set_allPairs)

text \<open>
  Claim C10. The collision pass preserves the vector sum of the positions (and so their
  centroid): each pairwise correction displaces the two points by opposite vectors, and
  the sums of the \<open>x\<close> and of the \<open>y\<close> coordinates after the pass equal the sums
  before it.
\<close>

theorem C10_collision_preserves_sum:
  "sum_list (map p_x (collisionPass points)) = sum_list (map p_x points)
   \<and> sum_list (map p_y (collisionPass points)) = sum_list (map p_y points)
   \<and> p_x (fst (collide p1 p2)) - p_x p1 = - (p_x (snd (collide p1 p2)) - p_x p2)
   \<and> p_y (fst (collide p1 p2)) - p_y p1 = - (p_y (snd (collide p1 p2)) - p_y p2)"
proof -
  obtain q1 q2 where c: "collide p1 p2 = (q1, q2)" by (cases "collide p1 p2")
  from collide_sum [OF c] have
    "p_x (fst (collide p1 p2)) - p_x p1 = - (p_x (snd (collide p1 p2)) - p_x p2)"
    "p_y (fst (collide p1 p2)) - p_y p1 = - (p_y (snd (collide p1 p2)) - p_y p2)"
    by (simp_all add: c)
  with collisionPass_sum [of points] show ?thesis by blast
qed

subsection \<open>The collision rule\<close>

text \<open>
  Claim C3. For a pair at distance \<open>dist\<close> with \<open>0 < dist < minDist = (p1.r + p2.r) * 0.8\<close>
  the resolver moves \<open>p1\<close> by \<open>-force\<close> and \<open>p2\<close> by \<open>+force\<close> along the unit vector
  from \<open>p1\<close> to \<open>p2\<close>, with \<open>force = (minDist - dist) * STIFFNESS\<close> and
  \<open>STIFFNESS = 0.05\<close>, the same for both points whatever their radii; a pair at distance
  at least \<open>minDist\<close> is left unchanged; and a tick makes one pass, which visits every
  unordered pair \<open>i < j\<close> exactly once.
\<close>

theorem C3_collisionResolver:
  "(distance p1 p2 < minDist p1 p2 \<and> 0 < distance p1 p2 \<longrightarrow>
      collide p1 p2 =
        (displace p1 (- force p1 p2) (unitVector p1 p2),
         displace p2 (force p1 p2) (unitVector p1 p2))
      \<and> (fst (unitVector p1 p2))\<^sup>2 + (snd (unitVector p1 p2))\<^sup>2 = 1)
   \<and> (minDist p1 p2 \<le> distance p1 p2 \<longrightarrow> collide p1 p2 = (p1, p2))
   \<and> STIFFNESS = 0.05
   \<and> collisionPass points = foldl resolvePair points (allPairs (length points))
   \<and> distinct (allPairs (length points))
   \<and> set (allPairs (length points)) = {(i, j). i < j \<and> j < length points}
   \<and> animatePoints points = map boundsClamp (collisionPass (map physicsStep points))"
  using collide_near [of p1 p2] unitVector_norm [of p1 p2] collide_far [of p1 p2]
    collisionPass_fold [of points] distinct_allPairs [of "length points"]
    set_allPairs [of "length points"]
  by (simp add: STIFFNESS_def animatePoints_def)

lemma distance_3_4_5: "distance (pointAt 100 100) (pointAt 130 140) = 50"
proof -
  have "(30::real)\<^sup>2 + 40\<^sup>2 = 50\<^sup>2" by simp
  then have "sqrt ((30::real)\<^sup>2 + 40\<^sup>2) = 50" by (simp only: real_sqrt_abs)
  then show ?thesis by (simp add: distance_def pointAt_def)
qed

theorem C3_collisionResolver_witness:
  "distance (pointAt 100 100) (pointAt 130 140) = 50
   \<and> minDist (pointAt 100 100) (pointAt 130 140) = 96
   \<and> collide (pointAt 100 100) (pointAt 130 140) = (pointAt 98.62 98.16, pointAt 131.38 141.84)
   \<and> minDist (pointAt 100 100) (pointAt 100 800) \<le> distance (pointAt 100 100) (pointAt 100 800)
   \<and> collide (pointAt 100 100) (pointAt 100 800) = (pointAt 100 100, pointAt 100 800)"
proof -
  let ?a = "pointAt 100 100" and ?b = "pointAt 130 140" and ?c = "pointAt 100 800"
  have m: "minDist ?a ?b = 96" by (simp add: minDist_def pointAt_def)
  have h: "distance ?a ?b < minDist ?a ?b \<and> 0 < distance ?a ?b"
    by (simp add: distance_3_4_5 m)
  have "collide ?a ?b =
          (displace ?a (- force ?a ?b) (unitVector ?a ?b), displace ?b (force ?a ?b) (unitVector ?a ?b))"
    using C3_collisionResolver [of ?a ?b "[]"] h by blast
  then have 1: "collide ?a ?b = (pointAt 98.62 98.16, pointAt 131.38 141.84)"
    by (simp add: displace_def force_def unitVector_def distance_3_4_5 m) (simp add: pointAt_def)
  have "distance ?a ?c = 700"
    by (simp add: distance_def pointAt_def)
  then have f: "minDist ?a ?c \<le> distance ?a ?c"
    by (simp add: minDist_def pointAt_def)
  have 2: "collide ?a ?c = (?a, ?c)"
    using C3_collisionResolver [of ?a ?c "[]"] f by blast
  from distance_3_4_5 m 1 f 2 show ?thesis by blast
qed

subsection \<open>Coincident points\<close>

text \<open>
  Claim C9, amended. When two overlapping points occupy the same position, the resolver
  has no special case and injects no perturbation: \<open>Math.atan2(0, 0) = 0\<close> makes the
  direction the fixed unit vector \<open>(1, 0)\<close>, so \<open>p1\<close> moves by \<open>-force\<close> and \<open>p2\<close> by
  \<open>+force\<close> along the \<open>x\<close> axis, with the ordinary force \<open>minDist * STIFFNESS\<close>. No
  division takes place.
\<close>

theorem C9_coincident_points:
  "(p_x p1 = p_x p2 \<and> p_y p1 = p_y p2 \<and> 0 < minDist p1 p2 \<longrightarrow>
      collide p1 p2 =
        (p1\<lparr>p_x := p_x p1 - minDist p1 p2 * STIFFNESS\<rparr>,
         p2\<lparr>p_x := p_x p2 + minDist p1 p2 * STIFFNESS\<rparr>))
   \<and> atan2 0 0 = 0 \<and> cos (atan2 0 0) = 1 \<and> sin (atan2 0 0) = 0"
  using collide_coincident [of p1 p2] by (simp add: atan2_zero)

theorem C9_coincident_points_witness:
  "0 < minDist (pointAt 100 100) (pointAt 100 100)
   \<and> collide (pointAt 100 100) (pointAt 100 100) = (pointAt 95.2 100, pointAt 104.8 100)"
proof -
  let ?a = "pointAt 100 100"
  have h: "p_x ?a = p_x ?a \<and> p_y ?a = p_y ?a \<and> 0 < minDist ?a ?a"
    by (simp add: minDist_def pointAt_def)
  have "collide ?a ?a =
        (?a\<lparr>p_x := p_x ?a - minDist ?a ?a * STIFFNESS\<rparr>,
         ?a\<lparr>p_x := p_x ?a + minDist ?a ?a * STIFFNESS\<rparr>)"
    using C9_coincident_points [of ?a ?a] h by blast
  then have "collide ?a ?a = (pointAt 95.2 100, pointAt 104.8 100)"
    by (simp add: minDist_def STIFFNESS_def pointAt_def)
  with h show ?thesis by blast
qed

lemma allPairs_2: "allPairs (Suc (Suc 0)) = [(0, Suc 0)]"
  by (simp add: allPairs_def upt_conv_Cons)

lemma allPairs_3:
  "allPairs (Suc (Suc (Suc 0))) = [(0, Suc 0), (0, Suc (Suc 0)), (Suc 0, Suc (Suc 0))]"
  by (simp add: allPairs_def upt_conv_Cons)

lemma collide_coincident_example:
  "collide (pointAt 100 100) (pointAt 100 100) = (pointAt 95.2 100, pointAt 104.8 100)"
  using collide_coincident [of "pointAt 100 100" "pointAt 100 100"]
  by (simp add: minDist_def STIFFNESS_def pointAt_def)

lemma collide_far_example:
  "collide (pointAt 100 800) (pointAt 100 100) = (pointAt 100 800, pointAt 100 100)"
proof -
  have "distance (pointAt 100 800) (pointAt 100 100) = 700"
    by (simp add: distance_def pointAt_def)
  then show ?thesis
    by (intro collide_far) (simp add: minDist_def pointAt_def)
qed

text \<open>
  Claim C9 as stated fails: the coincident pair at indices \<open>(0, 1)\<close> of a two-point
  state and the coincident pair at indices \<open>(1, 2)\<close> of a three-point state receive the
  same displacement, \<open>4.8\<close> to the left and \<open>4.8\<close> to the right. That is the full
  ordinary force for radii of \<open>60\<close>, in a direction that does not depend on the pair.
\<close>

theorem C9_no_perturbation_counterexample:
  "collisionPass [pointAt 100 100, pointAt 100 100] = [pointAt 95.2 100, pointAt 104.8 100]
   \<and> collisionPass [pointAt 100 800, pointAt 100 100, pointAt 100 100]
       = [pointAt 100 800, pointAt 95.2 100, pointAt 104.8 100]"
proof -
  have 1: "collisionPass [pointAt 100 100, pointAt 100 100] = [pointAt 95.2 100, pointAt 104.8 100]"
    by (simp add: collisionPass_fold allPairs_2 resolvePair_def collide_coincident_example)
  have 2: "collisionPass [pointAt 100 800, pointAt 100 100, pointAt 100 100]
       = [pointAt 100 800, pointAt 95.2 100, pointAt 104.8 100]"
    by (simp add: collisionPass_fold allPairs_3 resolvePair_def collide_coincident_example
        collide_far_example)
  from 1 2 show ?thesis by blast
qed

section \<open>Fields the tick leaves alone\<close>

lemma resolvePair_field:
  assumes f: "\<And>p1 p2. f (fst (collide p1 p2)) = f p1 \<and> f (snd (collide p1 p2)) = f p2"
    and "i < j" and "j < length points"
  shows "map f (resolvePair points (i, j)) = map f points"
proof -
  obtain q1 q2 where c: "collide (points ! i) (points ! j) = (q1, q2)"
    by (cases "collide (points ! i) (points ! j)")
  from f [of "points ! i" "points ! j"] c
  have q: "f q1 = f (points ! i)" "f q2 = f (points ! j)" by simp_all
  from assms have i: "i < length points" by simp
  have "map f (points[i := q1, j := q2]) = (map f points)[i := f q1, j := f q2]"
    by (simp add: map_update)
  also have "\<dots> = map f points"
    using i assms(3) by (simp add: q nth_map [symmetric] del: nth_map)
  finally show ?thesis by (simp add: resolvePair_def c)
qed

lemma foldl_resolvePair_field:
  assumes f: "\<And>p1 p2. f (fst (collide p1 p2)) = f p1 \<and> f (snd (collide p1 p2)) = f p2"
    and "\<forall>ij \<in> set ps. fst ij < snd ij \<and> snd ij < length points"
  shows "map f (foldl resolvePair points ps) = map f points"
  using assms(2)
proof (induction ps arbitrary: points)
  case Nil
  then show ?case by simp
next
  case (Cons ij ps)
  obtain i j where ij: "ij = (i, j)" by (cases ij)
  from Cons.prems ij have lt: "i < j" "j < length points" by auto
  have "\<forall>kl \<in> set ps. fst kl < snd kl \<and> snd kl < length (resolvePair points ij)"
    using Cons.prems by (simp add: length_resolvePair)
  from Cons.IH [OF this] resolvePair_field [of f, OF f lt] show ?case
    by (simp add: ij)
qed

lemma collisionPass_field:
  assumes "\<And>p1 p2. f (fst (collide p1 p2)) = f p1 \<and> f (snd (collide p1 p2)) = f p2"
  shows "map f (collisionPass points) = map f points"
  unfolding collisionPass_fold
  by (rule foldl_resolvePair_field [of f, OF assms]) (auto simp: set_allPairs)

lemma collide_fields:
  "p_r (fst (collide p1 p2)) = p_r p1 \<and> p_r (snd (collide p1 p2)) = p_r p2"
  "p_targetR (fst (collide p1 p2)) = p_targetR p1 \<and> p_targetR (snd (collide p1 p2)) = p_targetR p2"
  "p_id (fst (collide p1 p2)) = p_id p1 \<and> p_id (snd (collide p1 p2)) = p_id p2"
  by (simp_all add: collide_def Let_def)

lemma length_collisionPass: "length (collisionPass points) = length points"
  by (simp add: collisionPass_fold length_foldl_resolvePair)

lemma physicsStep_fields:
  "p_r (physicsStep p) = p_r p + (p_targetR p - p_r p) * 0.1"
  "p_targetR (physicsStep p) = p_targetR p"
  "p_id (physicsStep p) = p_id p"
  by (simp_all add: physicsStep_def Let_def)

lemma animatePoints_fields:
  "map p_r (animatePoints points) = map (\<lambda>p. p_r p + (p_targetR p - p_r p) * 0.1) points"
  "map p_targetR (animatePoints points) = map p_targetR points"
  "map p_id (animatePoints points) = map p_id points"
proof -
  have "map p_r (animatePoints points) = map p_r (collisionPass (map physicsStep points))"
    by (simp add: animatePoints_def boundsClamp_fields)
  also have "\<dots> = map p_r (map physicsStep points)"
    by (rule collisionPass_field) (rule collide_fields)
  finally show "map p_r (animatePoints points) = map (\<lambda>p. p_r p + (p_targetR p - p_r p) * 0.1) points"
    by (simp add: physicsStep_fields)
  have "map p_targetR (animatePoints points) = map p_targetR (collisionPass (map physicsStep points))"
    by (simp add: animatePoints_def boundsClamp_fields)
  also have "\<dots> = map p_targetR (map physicsStep points)"
    by (rule collisionPass_field) (rule collide_fields)
  finally show "map p_targetR (animatePoints points) = map p_targetR points"
    by (simp add: physicsStep_fields)
  have "map p_id (animatePoints points) = map p_id (collisionPass (map physicsStep points))"
    by (simp add: animatePoints_def boundsClamp_fields)
  also have "\<dots> = map p_id (map physicsStep points)"
    by (rule collisionPass_field) (rule collide_fields)
  finally show "map p_id (animatePoints points) = map p_id points"
    by (simp add: physicsStep_fields)
qed

section \<open>Radius invariant\<close>

lemma smoothing_range:
  fixes r t :: real
  assumes "lo \<le> r" "r \<le> hi" "lo \<le> t" "t \<le> hi"
  shows "lo \<le> r + (t - r) * 0.1" and "r + (t - r) * 0.1 \<le> hi"
proof -
  have e: "r + (t - r) * 0.1 = 0.9 * r + 0.1 * t" by (simp add: field_simps)
  from assms show "lo \<le> r + (t - r) * 0.1" unfolding e by linarith
  from assms show "r + (t - r) * 0.1 \<le> hi" unfolding e by linarith
qed

lemma radiiOk_physicsStep: "radiiOk p \<Longrightarrow> radiiOk (physicsStep p)"
  using smoothing_range [of BASE_RADIUS "p_r p" MAX_RADIUS "p_targetR p"]
  by (simp add: radiiOk_def physicsStep_fields)

lemma radiiOk_radiusSmoothing: "radiiOk p \<Longrightarrow> radiiOk (radiusSmoothing p)"
  using smoothing_range [of BASE_RADIUS "p_r p" MAX_RADIUS "p_targetR p"]
  by (simp add: radiiOk_def radiusSmoothing_def)

lemma radiiOk_cong:
  assumes "map p_r ps = map p_r qs" and "map p_targetR ps = map p_targetR qs"
  shows "list_all radiiOk ps = list_all radiiOk qs"
proof -
  from assms(1) have len: "length ps = length qs" by (rule map_eq_imp_length_eq)
  have "p_r (ps ! k) = p_r (qs ! k) \<and> p_targetR (ps ! k) = p_targetR (qs ! k)"
    if "k < length ps" for k
    using that len assms nth_map [of k ps p_r] nth_map [of k qs p_r]
      nth_map [of k ps p_targetR] nth_map [of k qs p_targetR] by simp
  then show ?thesis
    using len by (auto simp: list_all_length radiiOk_def)
qed

lemma radiiOk_animatePoints:
  assumes "list_all radiiOk points"
  shows "list_all radiiOk (animatePoints points)"
proof -
  have "list_all radiiOk (animatePoints points) = list_all radiiOk (map physicsStep points)"
    by (rule radiiOk_cong) (simp_all add: animatePoints_fields physicsStep_fields)
  with assms show ?thesis
    by (simp add: list_all_iff radiiOk_physicsStep)
qed

lemma updateTarget_target_range:
  assumes "updateTarget query p = Inr p'"
  shows "BASE_RADIUS \<le> p_targetR p' \<and> p_targetR p' \<le> MAX_RADIUS \<and> p_r p' = p_r p \<and> p_id p' = p_id p"
proof -
  from assms obtain relevance where
    r: "relevanceOf query (findItem p) = Inr relevance" and
    p': "p' = p\<lparr>p_targetR :=
            BASE_RADIUS + (MAX_RADIUS - BASE_RADIUS) * (if relevance > 0.1 then relevance else 0)\<rparr>"
    by (auto simp: updateTarget_def split: sum.splits)
  from r have "0.05 \<le> relevance \<and> relevance \<le> 1"
    using calculateRelevance_range
    by (auto simp: relevanceOf_def split: option.splits if_splits)
  then show ?thesis
    by (simp add: p' BASE_RADIUS_def MAX_RADIUS_def)
qed

lemma updateTargets_radiiOk:
  "updateTargets query points = Inr points' \<Longrightarrow> list_all radiiOk points \<Longrightarrow>
   list_all radiiOk points'"
proof (induction points arbitrary: points')
  case Nil
  then show ?case by simp
next
  case (Cons p ps)
  from Cons.prems(1) obtain q qs where
    q: "updateTarget query p = Inr q" and qs: "updateTargets query ps = Inr qs" and
    e: "points' = q # qs"
    by (auto split: sum.splits)
  from updateTarget_target_range [OF q] Cons.prems(2) have "radiiOk q"
    by (simp add: radiiOk_def)
  moreover have "list_all radiiOk qs"
    using Cons.IH [OF qs] Cons.prems(2) by simp
  ultimately show ?case by (simp add: e)
qed

lemma updateTargets_ids:
  "updateTargets query points = Inr points' \<Longrightarrow> map p_id points' = map p_id points"
proof (induction points arbitrary: points')
  case Nil
  then show ?case by simp
next
  case (Cons p ps)
  from Cons.prems(1) obtain q qs where
    q: "updateTarget query p = Inr q" and qs: "updateTargets query ps = Inr qs" and
    e: "points' = q # qs"
    by (auto split: sum.splits)
  from updateTarget_target_range [OF q] Cons.IH [OF qs] show ?case
    by (simp add: e)
qed

lemma initPoints_radii:
  "list_all (\<lambda>p. p_r p = BASE_RADIUS \<and> p_targetR p = BASE_RADIUS) (initPoints rnd)"
  by (auto simp: initPoints_def list_all_iff initPoint_def)

lemma initPoints_radiiOk: "list_all radiiOk (initPoints rnd)"
  by (auto simp: initPoints_def list_all_iff initPoint_def radiiOk_def BASE_RADIUS_def MAX_RADIUS_def)

lemma reachable_radiiOk: "reachable points \<Longrightarrow> list_all radiiOk points"
proof (induction rule: reachable.induct)
  case start
  then show ?case by simp
next
  case (init rnd)
  show ?case by (rule initPoints_radiiOk)
next
  case (query points q points')
  then show ?case by (simp add: updateTargets_radiiOk)
next
  case (tick points)
  from tick.IH show ?case by (rule radiiOk_animatePoints)
qed

lemma length_MOCK_ITEMS: "length MOCK_ITEMS = 12"
  by (simp add: MOCK_ITEMS_def)

lemma reachable_halves: "reachable (initPoints halves)"
  by (rule reachable.init) (simp_all add: halves_def length_MOCK_ITEMS list_all_iff draw_ok_def)

text \<open>
  Claim C5. In every state the component can reach, and after the radius smoothing of
  every tick, the radius of every point lies in \<open>[BASE_RADIUS, MAX_RADIUS]\<close>:
  initialization sets \<open>r = targetR = BASE_RADIUS\<close>, every target radius the query
  effect writes lies in the interval, and \<open>r := r + (targetR - r) * 0.1\<close> keeps \<open>r\<close> in it.
\<close>

theorem C5_radius_invariant:
  "(reachable points \<longrightarrow>
      list_all radiiOk points \<and> list_all radiiOk (map radiusSmoothing points)
      \<and> list_all radiiOk (animatePoints points))
   \<and> list_all (\<lambda>p. p_r p = BASE_RADIUS \<and> p_targetR p = BASE_RADIUS) (initPoints rnd)
   \<and> (updateTarget query p = Inr p' \<longrightarrow>
        BASE_RADIUS \<le> p_targetR p' \<and> p_targetR p' \<le> MAX_RADIUS)
   \<and> (radiiOk p \<longrightarrow> radiiOk (radiusSmoothing p))"
proof -
  have "list_all radiiOk points \<and> list_all radiiOk (map radiusSmoothing points)
      \<and> list_all radiiOk (animatePoints points)" if "reachable points"
  proof -
    from that have a: "list_all radiiOk points" by (rule reachable_radiiOk)
    then have "list_all radiiOk (map radiusSmoothing points)"
      by (simp add: list_all_iff radiiOk_radiusSmoothing)
    moreover from a have "list_all radiiOk (animatePoints points)"
      by (rule radiiOk_animatePoints)
    ultimately show ?thesis using a by blast
  qed
  moreover note initPoints_radii [of rnd]
  moreover have "updateTarget query p = Inr p' \<longrightarrow>
        BASE_RADIUS \<le> p_targetR p' \<and> p_targetR p' \<le> MAX_RADIUS"
    using updateTarget_target_range [of query p p'] by blast
  moreover have "radiiOk p \<longrightarrow> radiiOk (radiusSmoothing p)"
    using radiiOk_radiusSmoothing by blast
  ultimately show ?thesis by blast
qed

theorem C5_radius_invariant_witness:
  "reachable (initPoints halves)
   \<and> list_all radiiOk (initPoints halves)
   \<and> list_all radiiOk (animatePoints (initPoints halves))
   \<and> updateTarget ''neon'' (initPoint neonTokyo (1 / 2, 1 / 2))
       = Inr ((initPoint neonTokyo (1 / 2, 1 / 2))\<lparr>p_targetR := 156\<rparr>)
   \<and> radiiOk (initPoint neonTokyo (1 / 2, 1 / 2))
   \<and> radiiOk (radiusSmoothing (initPoint neonTokyo (1 / 2, 1 / 2)))"
proof -
  let ?p = "initPoint neonTokyo (1 / 2, 1 / 2)"
  note r = reachable_halves
  note t = C5_radius_invariant [of "initPoints halves" halves "''neon''" ?p "?p\<lparr>p_targetR := 156\<rparr>"]
  have a: "list_all radiiOk (initPoints halves) \<and> list_all radiiOk (animatePoints (initPoints halves))"
    using t r by blast
  have u: "updateTarget ''neon'' ?p = Inr (?p\<lparr>p_targetR := 156\<rparr>)"
    by (simp add: updateTarget_found [OF findItem_neon] rel_neon targetRadius_spec_def
        BASE_RADIUS_def MAX_RADIUS_def)
  have ok: "radiiOk ?p"
    by (simp add: radiiOk_def initPoint_def BASE_RADIUS_def MAX_RADIUS_def)
  have s: "radiiOk (radiusSmoothing ?p)"
    using t ok by blast
  from r a u ok s show ?thesis by blast
qed

section \<open>Cells\<close>

lemma length_generateCells: "length (generateCells renderCell points) = length points"
  by (simp add: generateCells_def Let_def)

lemma generateCells_nth:
  "k < length points \<Longrightarrow>
   generateCells renderCell points ! k =
     makeCell (renderCell (map (\<lambda>p. (p_x p, p_y p)) points)) (points ! k) k"
  by (simp add: generateCells_def Let_def)

lemma makeCell_fields:
  "c_path (makeCell voronoi p i) = voronoi i"
  "c_item (makeCell voronoi p i) = findItem p"
  "c_relevance (makeCell voronoi p i) = (p_r p - BASE_RADIUS) / (MAX_RADIUS - BASE_RADIUS)"
  "c_center (makeCell voronoi p i) = (p_x p, p_y p)"
  by (simp_all add: makeCell_def Let_def)

lemma relevance_in_range:
  assumes "radiiOk p"
  shows "cellRelevanceOk (makeCell voronoi p i) p"
proof -
  let ?v = "(p_r p - BASE_RADIUS) / (MAX_RADIUS - BASE_RADIUS)"
  from assms have "0 \<le> ?v" and "?v \<le> 1"
    by (simp_all add: radiiOk_def BASE_RADIUS_def MAX_RADIUS_def)
  then show ?thesis
    by (simp add: cellRelevanceOk_def makeCell_fields relevance_cell_spec_def clamp01_def)
qed

lemma generateCells_relevance:
  assumes "list_all radiiOk points"
  shows "list_all2 cellRelevanceOk (generateCells renderCell points) points"
  using assms
  by (simp add: list_all2_conv_all_nth length_generateCells generateCells_nth list_all_length
      relevance_in_range)

text \<open>
  Claim C7. Every cell published by a tick carries the relevance
  \<open>(r - BASE_RADIUS) / (MAX_RADIUS - BASE_RADIUS)\<close> clamped to \<open>[0, 1]\<close>, and the value
  lies in \<open>[0, 1]\<close>. The source does not clamp; the radius invariant makes the clamp
  the identity on every state the component can reach.
\<close>

theorem C7_cell_relevance:
  "reachable points \<longrightarrow>
     list_all2 cellRelevanceOk (snd (animate renderCell points)) (fst (animate renderCell points))"
proof
  assume "reachable points"
  then have "reachable (animatePoints points)" by (rule reachable.tick)
  then have "list_all radiiOk (animatePoints points)" by (rule reachable_radiiOk)
  then show "list_all2 cellRelevanceOk (snd (animate renderCell points)) (fst (animate renderCell points))"
    by (simp add: animate_def Let_def generateCells_relevance)
qed

theorem C7_cell_relevance_witness:
  "reachable (initPoints halves)
   \<and> list_all2 cellRelevanceOk (snd (animate coincidentRenderer (initPoints halves)))
        (fst (animate coincidentRenderer (initPoints halves)))"
  using C7_cell_relevance [of "initPoints halves" coincidentRenderer] reachable_halves by blast

lemma find_first_Some: "find_first f xs = Some a \<Longrightarrow> f a \<and> a \<in> set xs"
  by (induction xs) (auto split: if_splits)

lemma findItem_id: "findItem p = Some item \<Longrightarrow> i_id item = p_id p"
  using find_first_Some [of "\<lambda>i. i_id i = p_id p" MOCK_ITEMS item]
  by (simp add: findItem_def)

lemma distinct_MOCK_ITEMS_ids: "distinct (map i_id MOCK_ITEMS)"
  by (simp add: MOCK_ITEMS_def)

lemma initPoints_ids:
  assumes "length rnd = length MOCK_ITEMS"
  shows "map p_id (initPoints rnd) = map i_id MOCK_ITEMS"
proof -
  have "map p_id (initPoints rnd) = map i_id (map fst (zip MOCK_ITEMS rnd))"
    by (simp add: initPoints_def initPoint_def case_prod_unfold)
  with assms show ?thesis by simp
qed

lemma reachable_ids: "reachable points \<Longrightarrow> distinct (map p_id points)"
proof (induction rule: reachable.induct)
  case start
  then show ?case by simp
next
  case (init rnd)
  then show ?case by (simp add: initPoints_ids distinct_MOCK_ITEMS_ids)
next
  case (query points q points')
  then show ?case by (simp add: updateTargets_ids)
next
  case (tick points)
  then show ?case by (simp add: animatePoints_fields)
qed

lemma generateCells_paths:
  "map c_path (generateCells renderCell points) =
     map (renderCell (map (\<lambda>p. (p_x p, p_y p)) points)) [0 ..< length points]"
  by (rule nth_equalityI) (simp_all add: length_generateCells generateCells_nth makeCell_fields)

lemma generateCells_items:
  "map c_item (generateCells renderCell points) = map findItem points"
  by (rule nth_equalityI) (simp_all add: length_generateCells generateCells_nth makeCell_fields)

lemma one_cell_per_item:
  assumes "distinct (map p_id points)" and "j < length points" and "k < length points"
    and "c_item (generateCells renderCell points ! j) = Some item1"
    and "c_item (generateCells renderCell points ! k) = Some item2"
    and "i_id item1 = i_id item2"
  shows "j = k"
proof -
  from assms(2,4) have "findItem (points ! j) = Some item1"
    by (simp add: generateCells_nth makeCell_fields)
  then have 1: "p_id (points ! j) = i_id item1" by (simp add: findItem_id)
  from assms(3,5) have "findItem (points ! k) = Some item2"
    by (simp add: generateCells_nth makeCell_fields)
  then have 2: "p_id (points ! k) = i_id item2" by (simp add: findItem_id)
  from 1 2 assms(6) have "map p_id points ! j = map p_id points ! k"
    using assms(2,3) by simp
  moreover have "(map p_id points ! j = map p_id points ! k) = (j = k)"
    using assms(1,2,3) by (intro nth_eq_iff_index_eq) simp_all
  ultimately show ?thesis by simp
qed

text \<open>
  Claim C8, amended. A tick always completes and publishes exactly one cell per point, in
  the order of the points; the path of a cell is whatever \<open>renderCell\<close> returned for its
  index, also when that is no path at all; the item of a cell is the one found for the
  point's id. The ids of the points are distinct in every reachable state, and then no
  two cells carry items with the same id.
\<close>

theorem C8_one_cell_per_point:
  "fst (animate renderCell points) = animatePoints points
   \<and> snd (animate renderCell points) = generateCells renderCell (animatePoints points)
   \<and> length (generateCells renderCell points) = length points
   \<and> map c_path (generateCells renderCell points) =
        map (renderCell (map (\<lambda>p. (p_x p, p_y p)) points)) [0 ..< length points]
   \<and> map c_item (generateCells renderCell points) = map findItem points
   \<and> (reachable points \<longrightarrow> distinct (map p_id points))
   \<and> (distinct (map p_id points) \<and> j < length points \<and> k < length points
        \<and> c_item (generateCells renderCell points ! j) = Some item1
        \<and> c_item (generateCells renderCell points ! k) = Some item2
        \<and> i_id item1 = i_id item2 \<longrightarrow> j = k)"
  using one_cell_per_item [of points j k renderCell item1 item2] reachable_ids [of points]
  by (simp add: animate_def Let_def length_generateCells generateCells_paths generateCells_items)

lemma animatePoints_beyondEdge:
  "animatePoints [beyondEdge ''1'', beyondEdge ''2'']
   = [(pointAt 1200 400)\<lparr>p_vx := - 0.63, p_id := ''1''\<rparr>,
      (pointAt 1200 400)\<lparr>p_vx := - 0.63, p_id := ''2''\<rparr>]"
  by (simp add: animatePoints_def collisionPass_fold allPairs_2 resolvePair_def physicsStep_def
      collide_def atan2_def boundsClamp_def beyondEdge_def pointAt_def Let_def consts_defs)

text \<open>
  Claim C8 as stated fails: two points that the clamp brings to the same position
  \<open>(1200, 400)\<close> yield two cells, and the second, for which the renderer has no polygon,
  is published with no path instead of being omitted.
\<close>

theorem C8_cell_not_omitted_counterexample:
  "map c_path (snd (animate coincidentRenderer [beyondEdge ''1'', beyondEdge ''2'']))
     = [Some ''M0,0L1200,0L1200,800L0,800Z'', None]
   \<and> map c_center (snd (animate coincidentRenderer [beyondEdge ''1'', beyondEdge ''2'']))
     = [(1200, 400), (1200, 400)]"
  by (simp add: animate_def Let_def animatePoints_beyondEdge generateCells_def makeCell_def
      coincidentRenderer_def pointAt_def)

theorem C8_one_cell_per_point_witness:
  "reachable (initPoints halves)
   \<and> distinct (map p_id (initPoints halves))
   \<and> length (generateCells coincidentRenderer (initPoints halves)) = length (initPoints halves)
   \<and> distinct (map p_id [beyondEdge ''1'', beyondEdge ''2''])
   \<and> c_item (generateCells coincidentRenderer [beyondEdge ''1'', beyondEdge ''2''] ! 0) = Some neonTokyo
   \<and> map c_item (generateCells coincidentRenderer [beyondEdge ''1'', beyondEdge ''2''])
       = map findItem [beyondEdge ''1'', beyondEdge ''2'']"
proof -
  let ?ps = "[beyondEdge ''1'', beyondEdge ''2'']"
  note t1 = C8_one_cell_per_point [of coincidentRenderer "initPoints halves" 0 0 neonTokyo neonTokyo]
  note t2 = C8_one_cell_per_point [of coincidentRenderer ?ps 0 0 neonTokyo neonTokyo]
  have a: "distinct (map p_id (initPoints halves))" using t1 reachable_halves by blast
  have b: "length (generateCells coincidentRenderer (initPoints halves)) = length (initPoints halves)"
    using t1 by blast
  have c: "distinct (map p_id ?ps)" by (simp add: beyondEdge_def)
  have f: "findItem (beyondEdge ''1'') = Some neonTokyo"
    by (simp add: findItem_def beyondEdge_def pointAt_def neonTokyo_def MOCK_ITEMS_def)
  have d: "map c_item (generateCells coincidentRenderer ?ps) = map findItem ?ps"
    using t2 by blast
  have e: "c_item (generateCells coincidentRenderer ?ps ! 0) = Some neonTokyo"
    using arg_cong [OF d, of "\<lambda>xs. xs ! 0"] f by (simp add: length_generateCells)
  have "distinct (map p_id ?ps) \<and> (0::nat) < length ?ps \<and> (0::nat) < length ?ps
        \<and> c_item (generateCells coincidentRenderer ?ps ! 0) = Some neonTokyo
        \<and> c_item (generateCells coincidentRenderer ?ps ! 0) = Some neonTokyo
        \<and> i_id neonTokyo = i_id neonTokyo"
    using c e by simp
  with t2 have "(0::nat) = 0" by blast
  with reachable_halves a b c e d show ?thesis by blast
qed

section \<open>Target radius\<close>

lemma find_first_None_iff: "find_first f xs = None \<longleftrightarrow> (\<forall>a \<in> set xs. \<not> f a)"
  by (induction xs) auto

lemma findItem_known:
  assumes "p_id p \<in> set (map i_id MOCK_ITEMS)"
  shows "findItem p \<noteq> None"
  using assms by (auto simp: findItem_def find_first_None_iff)

lemma reachable_known_ids: "reachable points \<Longrightarrow> set (map p_id points) \<subseteq> set (map i_id MOCK_ITEMS)"
proof (induction rule: reachable.induct)
  case start
  then show ?case by simp
next
  case (init rnd)
  then show ?case by (simp add: initPoints_ids)
next
  case (query points q points')
  then show ?case by (simp add: updateTargets_ids)
next
  case (tick points)
  then show ?case by (simp add: animatePoints_fields)
qed

lemma reachable_items_found:
  assumes "reachable points"
  shows "list_all (\<lambda>p. findItem p \<noteq> None) points"
proof -
  from reachable_known_ids [OF assms]
  have "p_id p \<in> set (map i_id MOCK_ITEMS)" if "p \<in> set points" for p
    using that by auto
  then have "findItem p \<noteq> None" if "p \<in> set points" for p
    using that by (intro findItem_known)
  then show ?thesis
    unfolding list_all_iff by blast
qed

text \<open>
  Claim C2. The query effect writes, for every point whose item is found (as it is for
  every point of a reachable state), the target
  radius \<open>BASE_RADIUS\<close> when the relevance score is at most \<open>0.1\<close> and
  \<open>BASE_RADIUS + (MAX_RADIUS - BASE_RADIUS) * score\<close> when it exceeds \<open>0.1\<close>; the empty
  query, whose score is the baseline \<open>0.1\<close>, writes exactly \<open>BASE_RADIUS\<close> to every
  point.
\<close>

theorem C2_targetRadius:
  "(list_all (\<lambda>p. findItem p \<noteq> None) points \<longrightarrow>
      updateTargets query points =
        Inr (map (\<lambda>p. p\<lparr>p_targetR := targetRadius_spec (calculateRelevance query (the (findItem p)))\<rparr>)
               points))
   \<and> (reachable points \<longrightarrow> list_all (\<lambda>p. findItem p \<noteq> None) points)
   \<and> updateTargets [] points = Inr (map (\<lambda>p. p\<lparr>p_targetR := BASE_RADIUS\<rparr>) points)
   \<and> targetRadius_spec 0.1 = BASE_RADIUS"
  using updateTargets_found [of points query] updateTargets_empty [of points]
    reachable_items_found [of points]
  by (simp add: targetRadius_spec_def)

theorem C2_targetRadius_witness:
  "list_all (\<lambda>p. findItem p \<noteq> None) [initPoint neonTokyo (1/2, 1/2)]
   \<and> updateTargets ''neon'' [initPoint neonTokyo (1/2, 1/2)]
       = Inr [(initPoint neonTokyo (1/2, 1/2))\<lparr>p_targetR := 156\<rparr>]
   \<and> reachable (initPoints halves)
   \<and> list_all (\<lambda>p. findItem p \<noteq> None) (initPoints halves)"
proof -
  have a: "list_all (\<lambda>p. findItem p \<noteq> None) [initPoint neonTokyo (1/2, 1/2)]"
    by (simp add: findItem_neon)
  have "updateTargets ''neon'' [initPoint neonTokyo (1/2, 1/2)] =
        Inr (map (\<lambda>p. p\<lparr>p_targetR := targetRadius_spec (calculateRelevance ''neon'' (the (findItem p)))\<rparr>)
               [initPoint neonTokyo (1/2, 1/2)])"
    using C2_targetRadius [of "[initPoint neonTokyo (1/2, 1/2)]" "''neon''"] a by blast
  then have b: "updateTargets ''neon'' [initPoint neonTokyo (1/2, 1/2)]
       = Inr [(initPoint neonTokyo (1/2, 1/2))\<lparr>p_targetR := 156\<rparr>]"
    by (simp add: findItem_neon rel_neon targetRadius_spec_def BASE_RADIUS_def MAX_RADIUS_def)
  have c: "list_all (\<lambda>p. findItem p \<noteq> None) (initPoints halves)"
    using C2_targetRadius [of "initPoints halves" "''neon''"] reachable_halves by blast
  from a b c reachable_halves show ?thesis by blast
qed

section \<open>Further worked examples\<close>

theorem C6_boundsClamp_witness:
  "list_all inBounds (animatePoints [beyondEdge ''1'', beyondEdge ''2''])
   \<and> map p_x (animatePoints [beyondEdge ''1'', beyondEdge ''2'']) = [1200, 1200]
   \<and> map p_vx (animatePoints [beyondEdge ''1'', beyondEdge ''2'']) = [- 0.63, - 0.63]"
proof -
  have "list_all inBounds (animatePoints [beyondEdge ''1'', beyondEdge ''2''])"
    using C6_boundsClamp [of "[beyondEdge ''1'', beyondEdge ''2'']"] by blast
  then show ?thesis
    by (simp add: animatePoints_beyondEdge pointAt_def)
qed

theorem C10_collision_preserves_sum_witness:
  "collisionPass [pointAt 100 100, pointAt 100 100] = [pointAt 95.2 100, pointAt 104.8 100]
   \<and> sum_list (map p_x (collisionPass [pointAt 100 100, pointAt 100 100])) = 200
   \<and> sum_list (map p_y (collisionPass [pointAt 100 100, pointAt 100 100])) = 200"
proof -
  let ?ps = "[pointAt 100 100, pointAt 100 100]"
  have 1: "collisionPass ?ps = [pointAt 95.2 100, pointAt 104.8 100]"
    by (simp add: collisionPass_fold allPairs_2 resolvePair_def collide_coincident_example)
  have "sum_list (map p_x (collisionPass ?ps)) = sum_list (map p_x ?ps)
      \<and> sum_list (map p_y (collisionPass ?ps)) = sum_list (map p_y ?ps)"
    using C10_collision_preserves_sum [of ?ps "pointAt 100 100" "pointAt 100 100"] by blast
  then have "sum_list (map p_x (collisionPass ?ps)) = 200
      \<and> sum_list (map p_y (collisionPass ?ps)) = 200"
    by (simp add: pointAt_def)
  with 1 show ?thesis by blast
qed

end
